theory Spec2Isabelle
  imports Main "HOL-Library.AList" "HOL-Library.Sublist"
begin

section \<open>Paths, configuration and time stamps\<close>

text \<open>
  Paths are the strings the program passes around. \<open>path_join\<close> and \<open>basename\<close> are
  \<^verbatim>\<open>os.path.join\<close> (two arguments) and \<^verbatim>\<open>os.path.basename\<close> of a POSIX system.
\<close>

type_synonym path = string

definition basename :: "path \<Rightarrow> string" where
  "basename p = rev (takeWhile (\<lambda>c. c \<noteq> CHR ''/'') (rev p))"

definition path_join :: "path \<Rightarrow> string \<Rightarrow> path" where
  "path_join a b =
     (if b \<noteq> [] \<and> hd b = CHR ''/'' then b
      else if a = [] \<or> last a = CHR ''/'' then a @ b
      else a @ ''/'' @ b)"

definition OUTPUT_FOLDER :: path where "OUTPUT_FOLDER = ''output''"
definition BACKUP_FOLDER :: path where "BACKUP_FOLDER = ''backups''"


text \<open>\<^verbatim>\<open>str.lower\<close> on the ASCII letters (a \<open>char\<close> is a byte).\<close>

definition lower_char :: "char \<Rightarrow> char" where
  "lower_char c =
     (let n = (of_char c :: nat) in if 65 \<le> n \<and> n \<le> 90 then char_of (n + 32) else c)"

definition lower :: "string \<Rightarrow> string" where
  "lower s = map lower_char s"


text \<open>
  A \<^verbatim>\<open>datetime.datetime\<close> value (years 1000 to 9999, as every date a spreadsheet
  stores and every clock reading is), and the two \<^verbatim>\<open>strftime\<close> formats the program
  uses: \<^verbatim>\<open>'%d/%m/%Y'\<close> and \<^verbatim>\<open>'%Y%m%d_%H%M%S'\<close>.
\<close>

datatype datetime =
  Datetime (year: nat) (month: nat) (day: nat) (hour: nat) (minute: nat) (second: nat)

definition digit :: "nat \<Rightarrow> char" where
  "digit n = ''0123456789'' ! (n mod 10)"

fun zero_padded :: "nat \<Rightarrow> nat \<Rightarrow> string" where
  "zero_padded 0 n = []"
| "zero_padded (Suc w) n = zero_padded w (n div 10) @ [digit n]"

definition strftime_dmY :: "datetime \<Rightarrow> string" where
  "strftime_dmY d =
     zero_padded 2 (day d) @ ''/'' @ zero_padded 2 (month d) @ ''/'' @ zero_padded 4 (year d)"

definition strftime_YmdHMS :: "datetime \<Rightarrow> string" where
  "strftime_YmdHMS d =
     zero_padded 4 (year d) @ zero_padded 2 (month d) @ zero_padded 2 (day d) @ ''_'' @
     zero_padded 2 (hour d) @ zero_padded 2 (minute d) @ zero_padded 2 (second d)"

section \<open>Exceptions\<close>

datatype py_error =
    TypeError
  | ValueError string
  | AttributeError
  | IndexError
  | FileNotFoundError path
  | InvalidFileException path
  | PermissionError path
  | SameFileError path

section \<open>Workbooks\<close>

text \<open>
  What the program sees of the spreadsheet library. A worksheet is its dictionary of
  cells, keyed by (row, column) from 1; a cell that is not there reads as \<^verbatim>\<open>None\<close>, and
  a cell with value \<^verbatim>\<open>None\<close> may be there. A workbook is its list of sheets and the
  index of the active one.
\<close>

datatype pyval = NoneV | IntV int | StrV string | BoolV bool | DatetimeV datetime

type_synonym cells = "((nat \<times> nat) \<times> pyval) list"

record worksheet =
  title :: string
  cells :: cells

record workbook =
  sheets :: "worksheet list"
  active_index :: nat

definition value_at :: "cells \<Rightarrow> nat \<Rightarrow> nat \<Rightarrow> pyval" where
  "value_at cs r c = (case map_of cs (r, c) of None \<Rightarrow> NoneV | Some v \<Rightarrow> v)"

text \<open>\<^verbatim>\<open>max_row\<close> and \<^verbatim>\<open>max_column\<close>: 1 for a sheet without cells, else the largest key.\<close>

definition max_row :: "cells \<Rightarrow> nat" where
  "max_row cs = (if cs = [] then 1 else fold max (map (fst \<circ> fst) cs) 0)"

definition max_column :: "cells \<Rightarrow> nat" where
  "max_column cs = (if cs = [] then 1 else fold max (map (snd \<circ> fst) cs) 0)"

text \<open>
  \<^verbatim>\<open>iter_rows(min_row=..., values_only=True)\<close> on a loaded sheet: nothing for a sheet
  without cells, else the rows \<open>min_row\<close> to \<open>max_row\<close>, each with the values of the columns
  1 to \<open>max_column\<close>.
\<close>

definition iter_rows :: "nat \<Rightarrow> cells \<Rightarrow> pyval list list" where
  "iter_rows min_row cs =
     (if cs = [] then []
      else map (\<lambda>r. map (\<lambda>c. value_at cs r c) [1..<Suc (max_column cs)])
             [min_row..<Suc (max_row cs)])"

text \<open>
  \<^verbatim>\<open>ws.cell(row, column, value)\<close>: the cell is created when it is missing, and its value
  is set only when \<open>value\<close> is not \<^verbatim>\<open>None\<close>. \<open>touch\<close> is the same call without a value,
  as the scan of column 1 makes it.
\<close>

definition touch :: "cells \<Rightarrow> nat \<times> nat \<Rightarrow> cells" where
  "touch cs k = (if map_of cs k = None then cs @ [(k, NoneV)] else cs)"

definition set_cell :: "cells \<Rightarrow> nat \<Rightarrow> nat \<Rightarrow> pyval \<Rightarrow> cells" where
  "set_cell cs r c v = (if v = NoneV then touch cs (r, c) else AList.update (r, c) v cs)"

text \<open>\<^verbatim>\<open>value.strftime('%d/%m/%Y') if isinstance(value, datetime) else value\<close>\<close>

fun format_value :: "pyval \<Rightarrow> pyval" where
  "format_value (DatetimeV d) = StrV (strftime_dmY d)"
| "format_value v = v"

text \<open>
  \<^verbatim>\<open>while destination_sheet.cell(row=next_row, column=1).value is not None: next_row += 1\<close>
\<close>

function find_next_row :: "cells \<Rightarrow> nat \<Rightarrow> nat" where
  "find_next_row cs next_row =
     (if value_at cs next_row 1 \<noteq> NoneV then find_next_row cs (next_row + 1) else next_row)"
  by pat_completeness auto
termination
proof (relation "measure (\<lambda>(cs, r). Suc (max_row cs) - r)")
  show "wf (measure (\<lambda>(cs, r). Suc (max_row cs) - r))"
    by simp
next
  fix cs :: cells and next_row :: nat
  assume filled: "value_at cs next_row 1 \<noteq> NoneV"
  have bound: "r \<le> fold max (map (fst \<circ> fst) ds) a" if "((r, c), v) \<in> set ds"
    for ds :: cells and r c v a
    using that
  proof (induction ds arbitrary: a)
    case Nil
    then show ?case by simp
  next
    case (Cons d ds)
    have mono: "a \<le> fold max (map (fst \<circ> fst) es) a" for es :: cells and a
      by (induction es arbitrary: a) (auto intro: order_trans [OF max.cobounded2])
    show ?case
    proof (cases "d = ((r, c), v)")
      case True
      have "r \<le> max r a" by simp
      also have "\<dots> \<le> fold max (map (fst \<circ> fst) ds) (max r a)" by (rule mono)
      finally show ?thesis using True by (simp add: comp_def)
    next
      case False
      with Cons.prems have "((r, c), v) \<in> set ds" by simp
      then show ?thesis using Cons.IH by (simp add: comp_def)
    qed
  qed
  from filled obtain v where "map_of cs (next_row, 1) = Some v"
    by (auto simp: value_at_def split: option.splits)
  then have "((next_row, 1), v) \<in> set cs"
    by (rule map_of_SomeD)
  then have "next_row \<le> max_row cs"
    using bound [of next_row 1 v cs 0] by (auto simp: max_row_def)
  then show "((cs, next_row + 1), (cs, next_row)) \<in> measure (\<lambda>(cs, r). Suc (max_row cs) - r)"
    by simp
qed

declare find_next_row.simps [simp del]

text \<open>
  The copy loop of the append step: each value of a source row is written, formatted,
  into the columns 1, 2, ... of row \<open>next_row\<close>, which then moves down by one.
\<close>

definition write_row :: "cells \<Rightarrow> nat \<Rightarrow> pyval list \<Rightarrow> cells" where
  "write_row cs next_row row =
     fold (\<lambda>(col_index, v) acc. set_cell acc next_row col_index (format_value v))
       (enumerate 1 row) cs"

fun write_rows :: "cells \<Rightarrow> nat \<Rightarrow> pyval list list \<Rightarrow> cells" where
  "write_rows cs next_row [] = cs"
| "write_rows cs next_row (row # rows) = write_rows (write_row cs next_row row) (Suc next_row) rows"

text \<open>
  \<^verbatim>\<open>ws.append(row)\<close> puts the values of \<open>row\<close>, \<^verbatim>\<open>None\<close> included, into the row after the
  last appended one; on a sheet just created that is row 1, then 2, and so on.
\<close>

definition append_row :: "cells \<Rightarrow> nat \<Rightarrow> pyval list \<Rightarrow> cells" where
  "append_row cs row_idx row =
     fold (\<lambda>(col_idx, v) acc. AList.update (row_idx, col_idx) v acc) (enumerate 1 row) cs"

fun append_rows :: "cells \<Rightarrow> nat \<Rightarrow> pyval list list \<Rightarrow> cells" where
  "append_rows cs current_row [] = cs"
| "append_rows cs current_row (row # rows) =
     append_rows (append_row cs (Suc current_row) row) (Suc current_row) rows"

text \<open>\<^verbatim>\<open>wb.active\<close> is the sheet at the active index, \<^verbatim>\<open>None\<close> when there is none.\<close>

definition active :: "workbook \<Rightarrow> worksheet option" where
  "active wb =
     (if active_index wb < length (sheets wb) then Some (sheets wb ! active_index wb) else None)"

definition sheetnames :: "workbook \<Rightarrow> string list" where
  "sheetnames wb = map title (sheets wb)"

text \<open>
  \<^verbatim>\<open>wb.create_sheet(title=...)\<close> appends an empty sheet and raises nothing for a title
  without forbidden characters. A title that matches an existing one, letter case aside,
  is replaced by the library's numbered variant of it; that computation is the parameter
  \<open>avoid_duplicate_name\<close>.
\<close>

definition create_sheet ::
  "(string list \<Rightarrow> string \<Rightarrow> string) \<Rightarrow> workbook \<Rightarrow> string \<Rightarrow> workbook"
where
  "create_sheet avoid_duplicate_name wb t =
     (let names = sheetnames wb;
          t' = (if list_ex (\<lambda>n. lower n = lower t) names then avoid_duplicate_name names t
                else t)
      in wb\<lparr>sheets := sheets wb @ [\<lparr>title = t', cells = []\<rparr>]\<rparr>)"

section \<open>Files\<close>

text \<open>
  The file system as the program uses it: what each path holds, and whether a write to a
  path succeeds. A file is a workbook (what \<^verbatim>\<open>load_workbook\<close> reads from it and
  \<^verbatim>\<open>save\<close> writes to it) or other bytes, which \<^verbatim>\<open>load_workbook\<close> rejects. A path that is
  \<^verbatim>\<open>None\<close> makes each of these calls raise \<^verbatim>\<open>TypeError\<close>.
\<close>

datatype content = Xlsx workbook | Blob "nat list"

record filesystem =
  files :: "path \<rightharpoonup> content"
  writable :: "path \<Rightarrow> bool"

definition path_exists :: "filesystem \<Rightarrow> path \<Rightarrow> bool" where
  "path_exists fs p = (files fs p \<noteq> None)"

definition write_file :: "filesystem \<Rightarrow> path \<Rightarrow> content \<Rightarrow> py_error + filesystem" where
  "write_file fs p c =
     (if writable fs p then Inr (fs\<lparr>files := (files fs)(p \<mapsto> c)\<rparr>) else Inl (PermissionError p))"

definition load_workbook :: "filesystem \<Rightarrow> path option \<Rightarrow> py_error + workbook" where
  "load_workbook fs filename =
     (case filename of
        None \<Rightarrow> Inl TypeError
      | Some p \<Rightarrow>
          (case files fs p of
             None \<Rightarrow> Inl (FileNotFoundError p)
           | Some (Blob bs) \<Rightarrow> Inl (InvalidFileException p)
           | Some (Xlsx wb) \<Rightarrow> Inr wb))"

definition save :: "filesystem \<Rightarrow> workbook \<Rightarrow> path option \<Rightarrow> py_error + filesystem" where
  "save fs wb filename =
     (case filename of None \<Rightarrow> Inl TypeError | Some p \<Rightarrow> write_file fs p (Xlsx wb))"

definition copy2 :: "filesystem \<Rightarrow> path option \<Rightarrow> path option \<Rightarrow> py_error + filesystem" where
  "copy2 fs src dst =
     (case src of
        None \<Rightarrow> Inl TypeError
      | Some s \<Rightarrow>
          (case dst of
             None \<Rightarrow> Inl TypeError
           | Some d \<Rightarrow>
               (case files fs s of
                  None \<Rightarrow> Inl (FileNotFoundError s)
                | Some c \<Rightarrow> if s = d then Inl (SameFileError s) else write_file fs d c)))"

section \<open>The script manager\<close>

datatype operation = DifferentSheetTransfer | ExcelMacro | SameSheetTransfer

record step =
  step_id :: string
  step_name :: string
  step_function :: operation

record manager =
  base_sheet_path :: "path option"
  new_data_sheet_path :: "path option"
  output_file_path :: "path option"
  pipeline_steps :: "step list"

definition step_functions :: "(string \<times> operation) list" where
  "step_functions =
     [(''different_sheet_transfer'', DifferentSheetTransfer),
      (''excel_macro'', ExcelMacro),
      (''same_sheet_transfer'', SameSheetTransfer)]"

definition init_steps :: "step list" where
  "init_steps =
     [\<lparr>step_id = ''different_sheet_transfer'', step_name = ''Transfer to New Sheet'',
        step_function = DifferentSheetTransfer\<rparr>,
      \<lparr>step_id = ''excel_macro'', step_name = ''Execute Excel Macro'',
        step_function = ExcelMacro\<rparr>,
      \<lparr>step_id = ''same_sheet_transfer'', step_name = ''Append to Base Sheet'',
        step_function = SameSheetTransfer\<rparr>]"

definition init :: manager where
  "init = \<lparr>base_sheet_path = None, new_data_sheet_path = None, output_file_path = None,
           pipeline_steps = init_steps\<rparr>"

subsection \<open>The three steps\<close>

text \<open>
  Each step reads the files it needs into workbooks of its own, works on those, and ends
  with one \<^verbatim>\<open>save\<close>; an exception of any call leaves the step at once (the handler logs
  and re-raises).
\<close>

definition execute_excel_macro :: "manager \<Rightarrow> filesystem \<Rightarrow> py_error + filesystem" where
  "execute_excel_macro m fs =
     (case load_workbook fs (base_sheet_path m) of
        Inl e \<Rightarrow> Inl e
      | Inr workbook \<Rightarrow> save fs workbook (base_sheet_path m))"

definition execute_same_sheet_transfer :: "manager \<Rightarrow> filesystem \<Rightarrow> py_error + filesystem" where
  "execute_same_sheet_transfer m fs =
     (case load_workbook fs (new_data_sheet_path m) of
        Inl e \<Rightarrow> Inl e
      | Inr source_workbook \<Rightarrow>
     (case load_workbook fs (base_sheet_path m) of
        Inl e \<Rightarrow> Inl e
      | Inr destination_workbook \<Rightarrow>
     (case active destination_workbook of
        None \<Rightarrow> Inl AttributeError
      | Some destination_sheet \<Rightarrow>
     (case active source_workbook of
        None \<Rightarrow> Inl AttributeError
      | Some source_sheet \<Rightarrow>
          (let next_row = find_next_row (cells destination_sheet) 1;
               scanned = touch (cells destination_sheet) (next_row, 1);
               written = write_rows scanned next_row (iter_rows 2 (cells source_sheet))
           in save fs
                (destination_workbook\<lparr>sheets :=
                   (sheets destination_workbook)
                     [active_index destination_workbook :=
                        destination_sheet\<lparr>cells := written\<rparr>]\<rparr>)
                (base_sheet_path m))))))"

definition new_sheet_name :: string where
  "new_sheet_name = ''Transferred Data''"

definition execute_different_sheet_transfer ::
  "(string list \<Rightarrow> string \<Rightarrow> string) \<Rightarrow> manager \<Rightarrow> filesystem \<Rightarrow> py_error + filesystem"
where
  "execute_different_sheet_transfer avoid_duplicate_name m fs =
     (case load_workbook fs (new_data_sheet_path m) of
        Inl e \<Rightarrow> Inl e
      | Inr source_workbook \<Rightarrow>
     (case load_workbook fs (base_sheet_path m) of
        Inl e \<Rightarrow> Inl e
      | Inr destination_workbook \<Rightarrow>
          (let created = create_sheet avoid_duplicate_name destination_workbook new_sheet_name;
               destination_sheet = last (sheets created)
           in (case active source_workbook of
                 None \<Rightarrow> Inl AttributeError
               | Some source_sheet \<Rightarrow>
                   (let appended =
                          append_rows (cells destination_sheet) 0
                            (map (map format_value) (iter_rows 1 (cells source_sheet)))
                    in save fs
                         (created\<lparr>sheets :=
                            butlast (sheets created) @ [destination_sheet\<lparr>cells := appended\<rparr>]\<rparr>)
                         (base_sheet_path m))))))"

text \<open>Calling \<^verbatim>\<open>step['function']()\<close>: the bound method the step carries.\<close>

fun call ::
  "(string list \<Rightarrow> string \<Rightarrow> string) \<Rightarrow> operation \<Rightarrow> manager \<Rightarrow> filesystem
     \<Rightarrow> py_error + filesystem"
where
  "call adn DifferentSheetTransfer m fs = execute_different_sheet_transfer adn m fs"
| "call adn ExcelMacro m fs = execute_excel_macro m fs"
| "call adn SameSheetTransfer m fs = execute_same_sheet_transfer m fs"

subsection \<open>Events\<close>

text \<open>
  The events sent to the client, in the order of the \<^verbatim>\<open>emit\<close> calls. The text of an event
  is a literal, \<^verbatim>\<open>str(e)\<close> of the exception caught, or a literal followed by \<^verbatim>\<open>str(e)\<close>.
\<close>

datatype message = Text string | Str py_error | TextStr string py_error

datatype event =
    step_start string
  | step_complete string
  | step_error string message
  | pipeline_complete string
  | pipeline_error message
  | pipeline_config_updated bool

subsection \<open>Running the pipeline\<close>

text \<open>
  The loop of \<^verbatim>\<open>_run_pipeline\<close>: the events emitted, the file system left behind, and
  whether the loop ran to its end (\<open>False\<close>: it returned from the handler of a failed step).
\<close>

fun run_steps ::
  "(string list \<Rightarrow> string \<Rightarrow> string) \<Rightarrow> manager \<Rightarrow> step list \<Rightarrow> filesystem
     \<Rightarrow> event list \<times> filesystem \<times> bool"
where
  "run_steps adn m [] fs = ([], fs, True)"
| "run_steps adn m (s # rest) fs =
     (case call adn (step_function s) m fs of
        Inl e \<Rightarrow> ([step_start (step_id s), step_error (step_id s) (Str e)], fs, False)
      | Inr fs' \<Rightarrow>
          (case run_steps adn m rest fs' of
             (evs, fs'', finished) \<Rightarrow>
               (step_start (step_id s) # step_complete (step_id s) # evs, fs'', finished)))"

text \<open>
  The copy of the result to the output folder. \<^verbatim>\<open>os.path.exists(None)\<close> raises
  \<^verbatim>\<open>TypeError\<close> outside every handler, which ends the thread: the third component.
\<close>

definition copy_final_result ::
  "manager \<Rightarrow> filesystem \<Rightarrow> event list \<times> filesystem \<times> py_error option"
where
  "copy_final_result m fs =
     (case base_sheet_path m of
        None \<Rightarrow> ([], fs, Some TypeError)
      | Some b \<Rightarrow>
          if path_exists fs b then
            (case copy2 fs (base_sheet_path m) (output_file_path m) of
               Inr fs' \<Rightarrow> ([pipeline_complete (basename (the (output_file_path m)))], fs', None)
             | Inl e \<Rightarrow>
                 ([pipeline_error (TextStr ''Failed to generate output file: '' e)], fs, None))
          else ([pipeline_error (Text ''Failed to generate output file'')], fs, None))"

definition run_pipeline ::
  "(string list \<Rightarrow> string \<Rightarrow> string) \<Rightarrow> manager \<Rightarrow> filesystem
     \<Rightarrow> event list \<times> filesystem \<times> py_error option"
where
  "run_pipeline adn m fs =
     (case run_steps adn m (pipeline_steps m) fs of
        (evs, fs', finished) \<Rightarrow>
          if finished then
            (case copy_final_result m fs' of (evs', fs'', exc) \<Rightarrow> (evs @ evs', fs'', exc))
          else (evs, fs', None))"

subsection \<open>Reordering\<close>

text \<open>\<^verbatim>\<open>list.index\<close>: the first position of the element, \<^verbatim>\<open>ValueError\<close> when there is none.\<close>

fun index_of :: "'a list \<Rightarrow> 'a \<Rightarrow> nat option" where
  "index_of [] x = None"
| "index_of (y # ys) x = (if y = x then Some 0 else map_option Suc (index_of ys x))"

text \<open>
  \<^verbatim>\<open>self.pipeline_steps.sort(key=lambda x: step_order.index(x['id']))\<close>: the keys of all
  elements are computed first, so an id that is not in \<open>step_order\<close> raises before the list
  is touched; otherwise the sort is stable.
\<close>

definition sort_steps :: "string list \<Rightarrow> step list \<Rightarrow> py_error + step list" where
  "sort_steps step_order steps =
     (if list_all (\<lambda>x. index_of step_order (step_id x) \<noteq> None) steps
      then Inr (sort_key (\<lambda>x. the (index_of step_order (step_id x))) steps)
      else Inl (ValueError ''is not in list''))"

definition update_pipeline_config :: "string list \<Rightarrow> manager \<Rightarrow> bool \<times> manager" where
  "update_pipeline_config step_order m =
     (if \<not> list_all (\<lambda>step_id. map_of step_functions step_id \<noteq> None) step_order
      then (False, m)
      else (case sort_steps step_order (pipeline_steps m) of
              Inl e \<Rightarrow> (False, m)
            | Inr sorted_steps \<Rightarrow> (True, m\<lparr>pipeline_steps := sorted_steps\<rparr>)))"

subsection \<open>Starting a run\<close>

text \<open>\<^verbatim>\<open>not path\<close> holds for \<^verbatim>\<open>None\<close> and for the empty string.\<close>

definition falsy :: "path option \<Rightarrow> bool" where
  "falsy p = (p = None \<or> p = Some [])"

text \<open>
  What \<^verbatim>\<open>execute_pipeline\<close> does before it returns: the events it emits itself, the
  exception it leaves with, if any, and whether it started the thread that runs
  \<^verbatim>\<open>_run_pipeline\<close>.
\<close>

record started =
  emitted :: "event list"
  raised :: "py_error option"
  thread_started :: bool

definition execute_pipeline :: "string list option \<Rightarrow> manager \<Rightarrow> started \<times> manager" where
  "execute_pipeline step_order m =
     (if falsy (base_sheet_path m) \<or> falsy (new_data_sheet_path m) then
        (case pipeline_steps m of
           [] \<Rightarrow> (\<lparr>emitted = [], raised = Some IndexError, thread_started = False\<rparr>, m)
         | s # rest \<Rightarrow>
             (\<lparr>emitted =
                 [step_error (step_id s)
                    (Text ''Please upload both Excel files before running the pipeline'')],
               raised = None, thread_started = False\<rparr>, m))
      else if step_order \<noteq> None \<and> step_order \<noteq> Some [] then
        (case sort_steps (the step_order) (pipeline_steps m) of
           Inl e \<Rightarrow> (\<lparr>emitted = [], raised = Some e, thread_started = False\<rparr>, m)
         | Inr sorted_steps \<Rightarrow>
             (\<lparr>emitted = [], raised = None, thread_started = True\<rparr>,
              m\<lparr>pipeline_steps := sorted_steps\<rparr>))
      else (\<lparr>emitted = [], raised = None, thread_started = True\<rparr>, m))"

text \<open>
  The two event handlers of \<^verbatim>\<open>app.py\<close>; \<open>data\<close> is the \<^verbatim>\<open>steps\<close> entry of the request, when
  it has one. The thread a start request spawns is run to its end here, after the handler.
\<close>

definition handle_pipeline_start ::
  "(string list \<Rightarrow> string \<Rightarrow> string) \<Rightarrow> string list option \<Rightarrow> manager \<times> filesystem
     \<Rightarrow> event list \<times> manager \<times> filesystem"
where
  "handle_pipeline_start adn data st =
     (case st of (m, fs) \<Rightarrow>
        (case execute_pipeline data m of
           (r, m') \<Rightarrow>
             if thread_started r then
               (case run_pipeline adn m' fs of (evs, fs', exc) \<Rightarrow> (emitted r @ evs, m', fs'))
             else (emitted r, m', fs)))"

definition handle_pipeline_config_update ::
  "string list option \<Rightarrow> manager \<Rightarrow> event list \<times> manager"
where
  "handle_pipeline_config_update data m =
     (case data of
        None \<Rightarrow> ([], m)
      | Some steps \<Rightarrow>
          (case update_pipeline_config steps m of
             (success, m') \<Rightarrow> ([pipeline_config_updated success], m')))"

subsection \<open>Uploads\<close>

definition backup_path :: "datetime \<Rightarrow> path \<Rightarrow> path" where
  "backup_path now base_path =
     path_join BACKUP_FOLDER (''backup_'' @ strftime_YmdHMS now @ ''_'' @ basename base_path)"

text \<open>
  \<^verbatim>\<open>update_file_paths\<close>: the exception it leaves with, if any (the handler logs and
  re-raises), and the manager and the file system as they are then. \<open>now\<close> is the clock.
\<close>

definition update_file_paths ::
  "datetime \<Rightarrow> path \<Rightarrow> path \<Rightarrow> manager \<times> filesystem
     \<Rightarrow> py_error option \<times> manager \<times> filesystem"
where
  "update_file_paths now base_path new_data_path st =
     (case st of (m, fs) \<Rightarrow>
        (case (if path_exists fs base_path
               then copy2 fs (Some base_path) (Some (backup_path now base_path))
               else Inr fs) of
           Inl e \<Rightarrow> (Some e, m, fs)
         | Inr fs' \<Rightarrow>
             (None,
              m\<lparr>base_sheet_path := Some base_path,
                new_data_sheet_path := Some new_data_path,
                output_file_path :=
                  Some (path_join OUTPUT_FOLDER (''processed_'' @ basename base_path))\<rparr>,
              fs')))"

text \<open>
  The upload handler of \<^verbatim>\<open>app.py\<close>. A request carries the two file parts or not; each
  part has the name the client gave and the bytes sent. \<open>secure_filename\<close> is the web
  framework's sanitiser.
\<close>

record upload =
  filename :: string
  body :: content



section \<open>Observations on event sequences\<close>


fun is_step_event :: "event \<Rightarrow> bool" where
  "is_step_event (step_start i) = True"
| "is_step_event (step_complete i) = True"
| "is_step_event (step_error i msg) = True"
| "is_step_event ev = False"

text \<open>
  What a step left in a workbook file: the titles of its sheets, and the value of a cell
  of its sheet number \<open>k\<close> (from 0). Both are \<open>None\<close> when the step failed or the file is
  not a workbook.
\<close>

definition sheet_titles :: "py_error + filesystem \<Rightarrow> path \<Rightarrow> string list option" where
  "sheet_titles res p =
     (case res of
        Inl e \<Rightarrow> None
      | Inr fs \<Rightarrow> (case files fs p of Some (Xlsx wb) \<Rightarrow> Some (sheetnames wb) | _ \<Rightarrow> None))"

definition sheet_cell :: "py_error + filesystem \<Rightarrow> path \<Rightarrow> nat \<Rightarrow> nat \<Rightarrow> nat \<Rightarrow> pyval option" where
  "sheet_cell res p k r c =
     (case res of
        Inl e \<Rightarrow> None
      | Inr fs \<Rightarrow>
          (case files fs p of
             Some (Xlsx wb) \<Rightarrow>
               if k < length (sheets wb) then Some (value_at (cells (sheets wb ! k)) r c) else None
           | _ \<Rightarrow> None))"

section \<open>Example data\<close>

text \<open>
  A destination workbook with a header row, a source workbook with a header and one data
  row that holds a date, the paths of an upload, and file systems that hold one or both
  files. \<open>suffix_one\<close> is a stand-in for the library's renaming of a duplicate title.
\<close>

definition suffix_one :: "string list \<Rightarrow> string \<Rightarrow> string" where
  "suffix_one names t = t @ ''1''"

definition base_file :: path where "base_file = ''uploads/base.xlsx''"

definition new_file :: path where "new_file = ''uploads/new.xlsx''"

definition dest_book :: workbook where
  "dest_book =
     \<lparr>sheets = [\<lparr>title = ''Sheet1'', cells = [((1, 1), StrV ''name''), ((1, 2), StrV ''when'')]\<rparr>],
      active_index = 0\<rparr>"

definition source_book :: workbook where
  "source_book =
     \<lparr>sheets = [\<lparr>title = ''Sheet'',
                 cells = [((1, 1), StrV ''name''), ((1, 2), StrV ''when''),
                          ((2, 1), StrV ''a''), ((2, 2), DatetimeV (Datetime 2024 3 5 10 30 0))]\<rparr>],
      active_index = 0\<rparr>"

definition ready :: manager where
  "ready = \<lparr>base_sheet_path = Some base_file, new_data_sheet_path = Some new_file,
            output_file_path = Some ''output/processed_base.xlsx'',
            pipeline_steps = init_steps\<rparr>"

definition macro_first :: manager where
  "macro_first = ready\<lparr>pipeline_steps := [init_steps ! 1, init_steps ! 0, init_steps ! 2]\<rparr>"

definition base_only :: filesystem where
  "base_only = \<lparr>files = [base_file \<mapsto> Xlsx dest_book], writable = (\<lambda>p. True)\<rparr>"

definition both_files :: filesystem where
  "both_files = \<lparr>files = [base_file \<mapsto> Xlsx dest_book, new_file \<mapsto> Xlsx source_book],
                 writable = (\<lambda>p. True)\<rparr>"

definition read_only :: filesystem where
  "read_only = \<lparr>files = [base_file \<mapsto> Xlsx dest_book], writable = (\<lambda>p. False)\<rparr>"

definition noon :: datetime where
  "noon = Datetime 2024 3 5 12 0 7"


text \<open>The destination workbook after the transfer to a new sheet, and after the whole run.\<close>

definition transferred_book :: workbook where
  "transferred_book =
     \<lparr>sheets = [\<lparr>title = ''Sheet1'', cells = [((1, 1), StrV ''name''), ((1, 2), StrV ''when'')]\<rparr>,
                \<lparr>title = ''Transferred Data'',
                 cells = [((1, 1), StrV ''name''), ((1, 2), StrV ''when''),
                          ((2, 1), StrV ''a''), ((2, 2), StrV ''05/03/2024'')]\<rparr>],
      active_index = 0\<rparr>"

definition final_book :: workbook where
  "final_book =
     \<lparr>sheets = [\<lparr>title = ''Sheet1'',
                 cells = [((1, 1), StrV ''name''), ((1, 2), StrV ''when''),
                          ((2, 1), StrV ''a''), ((2, 2), StrV ''05/03/2024'')]\<rparr>,
                \<lparr>title = ''Transferred Data'',
                 cells = [((1, 1), StrV ''name''), ((1, 2), StrV ''when''),
                          ((2, 1), StrV ''a''), ((2, 2), StrV ''05/03/2024'')]\<rparr>],
      active_index = 0\<rparr>"

definition transferred_files :: filesystem where
  "transferred_files =
     \<lparr>files = [base_file \<mapsto> Xlsx transferred_book, new_file \<mapsto> Xlsx source_book],
      writable = (\<lambda>p. True)\<rparr>"

text \<open>The same two files where the output path cannot be written.\<close>

definition output_locked :: filesystem where
  "output_locked =
     \<lparr>files = [base_file \<mapsto> Xlsx dest_book, new_file \<mapsto> Xlsx source_book],
      writable = (\<lambda>p. p \<noteq> ''output/processed_base.xlsx'')\<rparr>"

text \<open>
  A destination with a value in row 2 beside an empty first cell, and a source whose data
  row has no value in its first two cells.
\<close>

definition gap_book :: workbook where
  "gap_book =
     \<lparr>sheets = [\<lparr>title = ''Sheet1'', cells = [((1, 1), StrV ''name''), ((2, 2), StrV ''x'')]\<rparr>],
      active_index = 0\<rparr>"

definition sparse_book :: workbook where
  "sparse_book =
     \<lparr>sheets = [\<lparr>title = ''Sheet'',
                 cells = [((1, 1), StrV ''name''), ((1, 2), StrV ''when''), ((1, 3), StrV ''n''),
                          ((2, 3), IntV 5)]\<rparr>],
      active_index = 0\<rparr>"

definition gap_files :: filesystem where
  "gap_files = \<lparr>files = [base_file \<mapsto> Xlsx gap_book, new_file \<mapsto> Xlsx sparse_book],
                writable = (\<lambda>p. True)\<rparr>"

text \<open>A manager whose source and destination are the same file.\<close>

definition same_paths :: manager where
  "same_paths = ready\<lparr>new_data_sheet_path := Some base_file\<rparr>"




definition bogus_order :: "string list" where
  "bogus_order = [''same_sheet_transfer'', ''bogus'', ''excel_macro'', ''different_sheet_transfer'']"

section \<open>Auxiliary facts\<close>

lemma write_file_Inr:
  "write_file fs p c = Inr fs' \<Longrightarrow> fs' = fs\<lparr>files := (files fs)(p \<mapsto> c)\<rparr>"
  by (auto simp: write_file_def split: if_splits)

lemma save_Inr:
  "save fs wb po = Inr fs' \<Longrightarrow> \<exists>p. po = Some p \<and> fs' = fs\<lparr>files := (files fs)(p \<mapsto> Xlsx wb)\<rparr>"
  by (auto simp: save_def split: option.splits dest: write_file_Inr)

lemma call_Inr:
  "call adn f m fs = Inr fs' \<Longrightarrow>
     \<exists>b wb. base_sheet_path m = Some b \<and> fs' = fs\<lparr>files := (files fs)(b \<mapsto> Xlsx wb)\<rparr>"
  by (cases f)
     (auto simp: execute_different_sheet_transfer_def execute_excel_macro_def
        execute_same_sheet_transfer_def Let_def
        split: sum.splits option.splits dest!: save_Inr)

lemma run_steps_frame:
  "run_steps adn m ss fs = (evs, fs', fin) \<Longrightarrow>
     writable fs' = writable fs \<and> (\<forall>p. base_sheet_path m \<noteq> Some p \<longrightarrow> files fs' p = files fs p)"
proof (induction ss arbitrary: fs evs fs' fin)
  case Nil
  then show ?case by simp
next
  case (Cons s ss)
  show ?case
  proof (cases "call adn (step_function s) m fs")
    case (Inl e)
    with Cons.prems show ?thesis by simp
  next
    case (Inr fs1)
    then obtain b wb where b: "base_sheet_path m = Some b"
      and fs1: "fs1 = fs\<lparr>files := (files fs)(b \<mapsto> Xlsx wb)\<rparr>"
      by (blast dest: call_Inr)
    obtain evs1 fs2 fin1 where r: "run_steps adn m ss fs1 = (evs1, fs2, fin1)"
      by (cases "run_steps adn m ss fs1") auto
    with Cons.prems Inr have "fs' = fs2" by simp
    with Cons.IH [OF r] fs1 b show ?thesis by auto
  qed
qed

lemma run_steps_events:
  "run_steps adn m ss fs = (evs, fs', fin) \<Longrightarrow> list_all is_step_event evs"
proof (induction ss arbitrary: fs evs fs' fin)
  case Nil
  then show ?case by simp
next
  case (Cons s ss)
  then show ?case
    by (auto split: sum.splits prod.splits)
qed

lemma zero_padded_2: "zero_padded 2 n = [digit (n div 10), digit n]"
  by (simp add: numeral_2_eq_2)

lemma zero_padded_4:
  "zero_padded 4 n =
     [digit (n div 10 div 10 div 10), digit (n div 10 div 10), digit (n div 10), digit n]"
proof -
  have four: "(4::nat) = Suc (Suc (Suc (Suc 0)))"
    by simp
  show ?thesis
    unfolding four by simp
qed

lemma backup_name_noon:
  "backup_path noon ''uploads/base.xlsx'' = ''backups/backup_20240305_120007_base.xlsx''"
  by (simp add: backup_path_def path_join_def BACKUP_FOLDER_def basename_def strftime_YmdHMS_def
        noon_def digit_def zero_padded_2 zero_padded_4)











lemma format_value_None: "format_value v = NoneV \<longleftrightarrow> v = NoneV"
  by (cases v) auto

lemma value_at_touch: "value_at (touch cs k) r c = value_at cs r c"
  by (auto simp: value_at_def touch_def split: option.splits if_splits)

lemma value_at_update:
  "value_at (AList.update (r, c) v cs) r' c' = (if r' = r \<and> c' = c then v else value_at cs r' c')"
  by (simp add: value_at_def update_conv')

lemma value_at_set_cell:
  "value_at (set_cell cs r c v) r' c' =
     (if r' = r \<and> c' = c \<and> v \<noteq> NoneV then v else value_at cs r' c')"
  by (simp add: set_cell_def value_at_touch value_at_update)

lemma value_at_write_cols:
  "value_at (fold (\<lambda>(col_index, v) acc. set_cell acc r col_index (format_value v))
       (enumerate k vals) cs) r' c' =
     (if r' = r \<and> k \<le> c' \<and> c' < k + length vals \<and> vals ! (c' - k) \<noteq> NoneV
      then format_value (vals ! (c' - k)) else value_at cs r' c')"
proof (induction vals arbitrary: k cs)
  case Nil
  then show ?case by auto
next
  case (Cons v vals)
  let ?f = "\<lambda>(col_index, v) acc. set_cell acc r col_index (format_value v)"
  let ?cs = "set_cell cs r k (format_value v)"
  have "value_at (fold ?f (enumerate k (v # vals)) cs) r' c' =
          value_at (fold ?f (enumerate (Suc k) vals) ?cs) r' c'"
    by simp
  also have "\<dots> =
      (if r' = r \<and> Suc k \<le> c' \<and> c' < Suc k + length vals \<and> vals ! (c' - Suc k) \<noteq> NoneV
       then format_value (vals ! (c' - Suc k)) else value_at ?cs r' c')"
    by (rule Cons.IH)
  also have "\<dots> =
      (if r' = r \<and> k \<le> c' \<and> c' < k + length (v # vals) \<and> (v # vals) ! (c' - k) \<noteq> NoneV
       then format_value ((v # vals) ! (c' - k)) else value_at cs r' c')"
    by (auto simp: value_at_set_cell format_value_None nth_Cons')
  finally show ?case .
qed

lemma value_at_write_row:
  "value_at (write_row cs r vals) r' c' =
     (if r' = r \<and> 1 \<le> c' \<and> c' \<le> length vals \<and> vals ! (c' - 1) \<noteq> NoneV
      then format_value (vals ! (c' - 1)) else value_at cs r' c')"
  unfolding write_row_def value_at_write_cols by auto

lemma value_at_write_rows:
  "value_at (write_rows cs n rows) r' c' =
     (if n \<le> r' \<and> r' < n + length rows \<and> 1 \<le> c' \<and> c' \<le> length (rows ! (r' - n))
         \<and> rows ! (r' - n) ! (c' - 1) \<noteq> NoneV
      then format_value (rows ! (r' - n) ! (c' - 1)) else value_at cs r' c')"
proof (induction rows arbitrary: n cs)
  case Nil
  then show ?case by auto
next
  case (Cons row rows)
  have "value_at (write_rows cs n (row # rows)) r' c' =
          value_at (write_rows (write_row cs n row) (Suc n) rows) r' c'"
    by simp
  also have "\<dots> =
      (if Suc n \<le> r' \<and> r' < Suc n + length rows \<and> 1 \<le> c' \<and> c' \<le> length (rows ! (r' - Suc n))
          \<and> rows ! (r' - Suc n) ! (c' - 1) \<noteq> NoneV
       then format_value (rows ! (r' - Suc n) ! (c' - 1)) else value_at (write_row cs n row) r' c')"
    by (rule Cons.IH)
  also have "\<dots> =
      (if n \<le> r' \<and> r' < n + length (row # rows) \<and> 1 \<le> c'
          \<and> c' \<le> length ((row # rows) ! (r' - n)) \<and> (row # rows) ! (r' - n) ! (c' - 1) \<noteq> NoneV
       then format_value ((row # rows) ! (r' - n) ! (c' - 1)) else value_at cs r' c')"
    by (auto simp: value_at_write_row nth_Cons')
  finally show ?case .
qed

lemma fold_max_ge_init: "(a::nat) \<le> fold max xs a"
  by (induction xs arbitrary: a) (auto intro: order_trans [OF max.cobounded2])

lemma fold_max_ge: "(x::nat) \<in> set xs \<Longrightarrow> x \<le> fold max xs a"
proof (induction xs arbitrary: a)
  case Nil
  then show ?case by simp
next
  case (Cons y ys)
  show ?case
  proof (cases "x = y")
    case True
    have "x \<le> max x a" by simp
    also have "\<dots> \<le> fold max ys (max x a)" by (rule fold_max_ge_init)
    finally show ?thesis using True by simp
  next
    case False
    with Cons show ?thesis by simp
  qed
qed

lemma value_at_bounds:
  assumes "value_at cs r c \<noteq> NoneV"
  shows "r \<le> max_row cs \<and> c \<le> max_column cs"
proof -
  from assms obtain v where "map_of cs (r, c) = Some v"
    by (auto simp: value_at_def split: option.splits)
  then have k: "((r, c), v) \<in> set cs"
    by (rule map_of_SomeD)
  then have "r \<in> set (map (fst \<circ> fst) cs)" and "c \<in> set (map (snd \<circ> fst) cs)"
    by force+
  then have "r \<le> fold max (map (fst \<circ> fst) cs) 0" and "c \<le> fold max (map (snd \<circ> fst) cs) 0"
    by (simp_all only: fold_max_ge)
  with k show ?thesis
    by (auto simp: max_row_def max_column_def)
qed

lemma length_iter_rows: "length (iter_rows k cs) = (if cs = [] then 0 else Suc (max_row cs) - k)"
  by (simp add: iter_rows_def del: upt_Suc)

lemma iter_rows_nth:
  "i < length (iter_rows k cs) \<Longrightarrow>
     iter_rows k cs ! i = map (\<lambda>c. value_at cs (k + i) c) [1..<Suc (max_column cs)]"
  by (cases "cs = []") (simp_all add: iter_rows_def del: upt_Suc)

lemma find_next_row_spec:
  "k \<le> find_next_row cs k \<and> value_at cs (find_next_row cs k) 1 = NoneV \<and>
   (\<forall>r. k \<le> r \<and> r < find_next_row cs k \<longrightarrow> value_at cs r 1 \<noteq> NoneV)"
proof (induction cs k rule: find_next_row.induct)
  case (1 cs k)
  show ?case
  proof (cases "value_at cs k 1 = NoneV")
    case True
    then show ?thesis
      by (auto simp: find_next_row.simps [of cs k])
  next
    case False
    then have eq: "find_next_row cs k = find_next_row cs (k + 1)"
      by (simp add: find_next_row.simps [of cs k])
    from "1.IH" [OF False]
    have a: "Suc k \<le> find_next_row cs (k + 1)"
      and b: "value_at cs (find_next_row cs (k + 1)) 1 = NoneV"
      and c: "\<forall>r. Suc k \<le> r \<and> r < find_next_row cs (k + 1) \<longrightarrow> value_at cs r 1 \<noteq> NoneV"
      by simp_all
    have "value_at cs r 1 \<noteq> NoneV" if "k \<le> r" "r < find_next_row cs (k + 1)" for r
    proof (cases "r = k")
      case True
      with False show ?thesis by simp
    next
      case False
      with that have "Suc k \<le> r" by simp
      with c that show ?thesis by blast
    qed
    with a b show ?thesis
      unfolding eq by auto
  qed
qed

lemma find_next_row_filled:
  assumes "\<forall>r. value_at cs r 1 \<noteq> NoneV \<longleftrightarrow> 1 \<le> r \<and> r \<le> N"
  shows "find_next_row cs 1 = Suc N"
proof -
  let ?n = "find_next_row cs 1"
  from find_next_row_spec [of 1 cs]
  have pos: "1 \<le> ?n" and empty: "value_at cs ?n 1 = NoneV"
    and filled: "\<forall>r. 1 \<le> r \<and> r < ?n \<longrightarrow> value_at cs r 1 \<noteq> NoneV"
    by auto
  from empty assms pos have "N < ?n"
    by (metis not_le_imp_less)
  moreover have "?n \<le> Suc N"
  proof (rule ccontr)
    assume "\<not> ?n \<le> Suc N"
    then have "1 \<le> Suc N \<and> Suc N < ?n" by simp
    with filled have "value_at cs (Suc N) 1 \<noteq> NoneV" by blast
    with assms show False by auto
  qed
  ultimately show ?thesis by simp
qed

lemma value_at_append_cols:
  "value_at (fold (\<lambda>(col_idx, v) acc. AList.update (r, col_idx) v acc) (enumerate k vals) cs) r' c' =
     (if r' = r \<and> k \<le> c' \<and> c' < k + length vals then vals ! (c' - k) else value_at cs r' c')"
proof (induction vals arbitrary: k cs)
  case Nil
  then show ?case by auto
next
  case (Cons v vals)
  let ?f = "\<lambda>(col_idx, v) acc. AList.update (r, col_idx) v acc"
  let ?cs = "AList.update (r, k) v cs"
  have "value_at (fold ?f (enumerate k (v # vals)) cs) r' c' =
          value_at (fold ?f (enumerate (Suc k) vals) ?cs) r' c'"
    by simp
  also have "\<dots> =
      (if r' = r \<and> Suc k \<le> c' \<and> c' < Suc k + length vals
       then vals ! (c' - Suc k) else value_at ?cs r' c')"
    by (rule Cons.IH)
  also have "\<dots> =
      (if r' = r \<and> k \<le> c' \<and> c' < k + length (v # vals)
       then (v # vals) ! (c' - k) else value_at cs r' c')"
    by (auto simp: value_at_update nth_Cons')
  finally show ?case .
qed

lemma value_at_append_rows:
  "value_at (append_rows cs k rows) r' c' =
     (if k < r' \<and> r' \<le> k + length rows \<and> 1 \<le> c' \<and> c' \<le> length (rows ! (r' - Suc k))
      then rows ! (r' - Suc k) ! (c' - 1) else value_at cs r' c')"
proof (induction rows arbitrary: k cs)
  case Nil
  then show ?case by auto
next
  case (Cons row rows)
  have "value_at (append_rows cs k (row # rows)) r' c' =
          value_at (append_rows (append_row cs (Suc k) row) (Suc k) rows) r' c'"
    by simp
  also have "\<dots> =
      (if Suc k < r' \<and> r' \<le> Suc k + length rows \<and> 1 \<le> c'
          \<and> c' \<le> length (rows ! (r' - Suc (Suc k)))
       then rows ! (r' - Suc (Suc k)) ! (c' - 1) else value_at (append_row cs (Suc k) row) r' c')"
    by (rule Cons.IH)
  also have "\<dots> =
      (if k < r' \<and> r' \<le> k + length (row # rows) \<and> 1 \<le> c'
          \<and> c' \<le> length ((row # rows) ! (r' - Suc k))
       then (row # rows) ! (r' - Suc k) ! (c' - 1) else value_at cs r' c')"
    by (auto simp: append_row_def value_at_append_cols nth_Cons')
  finally show ?case .
qed

lemma value_at_Nil: "value_at [] r c = NoneV"
  by (simp add: value_at_def)

lemma transferred_rows:
  assumes "1 \<le> r" and "1 \<le> c"
  shows "value_at (append_rows [] 0 (map (map format_value) (iter_rows 1 cs))) r c =
           format_value (value_at cs r c)"
proof (cases "cs \<noteq> [] \<and> r \<le> max_row cs \<and> c \<le> max_column cs")
  case True
  then have len: "r - 1 < length (iter_rows 1 cs)"
    using assms by (auto simp: length_iter_rows)
  let ?cols = "[1..<Suc (max_column cs)]"
  from True assms have c: "c - 1 < length ?cols" and at: "?cols ! (c - 1) = c"
    by (auto simp del: upt_Suc)
  have "value_at (append_rows [] 0 (map (map format_value) (iter_rows 1 cs))) r c =
          map (map format_value) (iter_rows 1 cs) ! (r - 1) ! (c - 1)"
  proof -
    from True have "r \<le> length (iter_rows 1 cs)"
      by (simp add: length_iter_rows)
    with True assms len c show ?thesis
      by (simp add: value_at_append_rows iter_rows_nth del: upt_Suc)
  qed
  also have "\<dots> = map format_value (map (\<lambda>c. value_at cs r c) ?cols) ! (c - 1)"
    using len assms by (simp add: iter_rows_nth del: upt_Suc)
  also have "\<dots> = format_value (value_at cs r (?cols ! (c - 1)))"
    using c by (simp del: upt_Suc)
  finally show ?thesis
    unfolding at .
next
  case False
  then have none: "value_at cs r c = NoneV"
    using value_at_bounds [of cs r c] by (auto simp: value_at_Nil)
  from False assms have "value_at (append_rows [] 0 (map (map format_value) (iter_rows 1 cs))) r c = NoneV"
    by (auto simp: value_at_append_rows length_iter_rows iter_rows_nth value_at_Nil
          simp del: upt_Suc)
  with none show ?thesis by simp
qed

lemma load_workbook_Xlsx: "files fs p = Some (Xlsx wb) \<Longrightarrow> load_workbook fs (Some p) = Inr wb"
  by (simp add: load_workbook_def)

lemma save_writable:
  "writable fs p \<Longrightarrow> save fs wb (Some p) = Inr (fs\<lparr>files := (files fs)(p \<mapsto> Xlsx wb)\<rparr>)"
  by (simp add: save_def write_file_def)

lemma excel_macro_loaded:
  assumes "base_sheet_path m = Some dp" "files fs dp = Some (Xlsx dwb)" "writable fs dp"
  shows "execute_excel_macro m fs = Inr (fs\<lparr>files := (files fs)(dp \<mapsto> Xlsx dwb)\<rparr>)"
  using assms by (simp add: execute_excel_macro_def load_workbook_Xlsx save_writable)

lemma different_sheet_transfer_loaded:
  assumes "new_data_sheet_path m = Some sp" "base_sheet_path m = Some dp"
    "files fs sp = Some (Xlsx swb)" "files fs dp = Some (Xlsx dwb)"
    "active swb = Some ssh" "writable fs dp"
  shows "execute_different_sheet_transfer adn m fs =
     Inr (fs\<lparr>files := (files fs)(dp \<mapsto> Xlsx (dwb\<lparr>sheets := sheets dwb @
       [\<lparr>title = (if list_ex (\<lambda>n. lower n = lower new_sheet_name) (sheetnames dwb)
                   then adn (sheetnames dwb) new_sheet_name else new_sheet_name),
         cells = append_rows [] 0 (map (map format_value) (iter_rows 1 (cells ssh)))\<rparr>]\<rparr>))\<rparr>)"
  using assms
  by (simp add: execute_different_sheet_transfer_def load_workbook_Xlsx save_writable
        create_sheet_def Let_def)

lemma same_sheet_transfer_loaded:
  assumes "new_data_sheet_path m = Some sp" "base_sheet_path m = Some dp"
    "files fs sp = Some (Xlsx swb)" "files fs dp = Some (Xlsx dwb)"
    "active swb = Some ssh" "active dwb = Some dsh" "writable fs dp"
  shows "execute_same_sheet_transfer m fs =
     Inr (fs\<lparr>files := (files fs)(dp \<mapsto> Xlsx (dwb\<lparr>sheets := (sheets dwb)
       [active_index dwb := dsh\<lparr>cells :=
          write_rows (touch (cells dsh) (find_next_row (cells dsh) 1, 1))
            (find_next_row (cells dsh) 1) (iter_rows 2 (cells ssh))\<rparr>]\<rparr>))\<rparr>)"
  using assms
  by (simp add: execute_same_sheet_transfer_def load_workbook_Xlsx save_writable Let_def)

lemma appended_rows:
  assumes rows: "max_row src = Suc M" and i: "i < M" and c: "1 \<le> c"
  shows "value_at (write_rows (touch d (n, 1)) n (iter_rows 2 src)) (n + i) c =
           (if value_at src (2 + i) c \<noteq> NoneV then format_value (value_at src (2 + i) c)
            else value_at d (n + i) c)"
proof -
  from rows i have ne: "src \<noteq> []"
    by (auto simp: max_row_def)
  with rows have len: "length (iter_rows 2 src) = M"
    by (simp add: length_iter_rows)
  let ?cols = "[1..<Suc (max_column src)]"
  have row: "iter_rows 2 src ! i = map (\<lambda>c. value_at src (2 + i) c) ?cols"
    using len i by (simp add: iter_rows_nth del: upt_Suc)
  show ?thesis
  proof (cases "c \<le> max_column src")
    case True
    with c have "c - 1 < length ?cols" and "?cols ! (c - 1) = c"
      by (auto simp del: upt_Suc)
    then have "iter_rows 2 src ! i ! (c - 1) = value_at src (2 + i) c"
      unfolding row by (simp del: upt_Suc)
    with True c i len row show ?thesis
      by (simp add: value_at_write_rows value_at_touch del: upt_Suc)
  next
    case False
    then have "value_at src (2 + i) c = NoneV"
      using value_at_bounds [of src "2 + i" c] by auto
    with False c i len row show ?thesis
      by (simp add: value_at_write_rows value_at_touch del: upt_Suc)
  qed
qed

lemma rows_outside_append:
  assumes "r < n \<or> n + length (iter_rows 2 src) \<le> r"
  shows "value_at (write_rows (touch d (n, 1)) n (iter_rows 2 src)) r c = value_at d r c"
  using assms by (auto simp: value_at_write_rows value_at_touch)

lemma example_paths: "base_file \<noteq> new_file" "new_file \<noteq> base_file"
  by (simp_all add: base_file_def new_file_def)

lemma ready_paths:
  "base_sheet_path ready = Some base_file" "new_data_sheet_path ready = Some new_file"
  "output_file_path ready = Some ''output/processed_base.xlsx''" "pipeline_steps ready = init_steps"
  by (simp_all add: ready_def)

lemma example_transfer:
  assumes "base_sheet_path m = Some base_file" "new_data_sheet_path m = Some new_file"
    "files fs base_file = Some (Xlsx dest_book)" "files fs new_file = Some (Xlsx source_book)"
    "writable fs base_file"
  shows "execute_different_sheet_transfer suffix_one m fs =
           Inr (fs\<lparr>files := (files fs)(base_file \<mapsto> Xlsx transferred_book)\<rparr>)"
proof -
  have a: "active source_book = Some (sheets source_book ! 0)"
    by code_simp
  have "dest_book\<lparr>sheets := sheets dest_book @
       [\<lparr>title = (if list_ex (\<lambda>n. lower n = lower new_sheet_name) (sheetnames dest_book)
                   then suffix_one (sheetnames dest_book) new_sheet_name else new_sheet_name),
         cells = append_rows [] 0
           (map (map format_value) (iter_rows 1 (cells (sheets source_book ! 0))))\<rparr>]\<rparr> =
       transferred_book"
    by code_simp
  with different_sheet_transfer_loaded [OF assms(2) assms(1) assms(4) assms(3) a assms(5),
      of suffix_one]
  show ?thesis by simp
qed

lemma example_append:
  assumes "base_sheet_path m = Some base_file" "new_data_sheet_path m = Some new_file"
    "files fs base_file = Some (Xlsx transferred_book)"
    "files fs new_file = Some (Xlsx source_book)" "writable fs base_file"
  shows "execute_same_sheet_transfer m fs =
           Inr (fs\<lparr>files := (files fs)(base_file \<mapsto> Xlsx final_book)\<rparr>)"
proof -
  have a: "active source_book = Some (sheets source_book ! 0)"
    and b: "active transferred_book = Some (sheets transferred_book ! 0)"
    by code_simp+
  have "transferred_book\<lparr>sheets := (sheets transferred_book)
       [active_index transferred_book := (sheets transferred_book ! 0)\<lparr>cells :=
          write_rows (touch (cells (sheets transferred_book ! 0))
              (find_next_row (cells (sheets transferred_book ! 0)) 1, 1))
            (find_next_row (cells (sheets transferred_book ! 0)) 1)
            (iter_rows 2 (cells (sheets source_book ! 0)))\<rparr>]\<rparr> =
       final_book"
    by code_simp
  with same_sheet_transfer_loaded [OF assms(2) assms(1) assms(4) assms(3) a b assms(5)]
  show ?thesis by simp
qed

text \<open>
  The example run, in the initial order and with the macro step first: every step
  succeeds and the destination ends as \<open>final_book\<close>, whatever else the file system holds.
\<close>

lemma example_steps:
  assumes m: "base_sheet_path m = Some base_file" "new_data_sheet_path m = Some new_file"
    and fs: "files fs base_file = Some (Xlsx dest_book)"
      "files fs new_file = Some (Xlsx source_book)" "writable fs base_file"
  shows "execute_excel_macro m fs = Inr (fs\<lparr>files := (files fs)(base_file \<mapsto> Xlsx dest_book)\<rparr>)"
    and "execute_different_sheet_transfer suffix_one m
           (fs\<lparr>files := (files fs)(base_file \<mapsto> Xlsx dest_book)\<rparr>) =
         Inr (fs\<lparr>files := (files fs)(base_file \<mapsto> Xlsx transferred_book)\<rparr>)"
    and "execute_different_sheet_transfer suffix_one m fs =
         Inr (fs\<lparr>files := (files fs)(base_file \<mapsto> Xlsx transferred_book)\<rparr>)"
    and "execute_excel_macro m (fs\<lparr>files := (files fs)(base_file \<mapsto> Xlsx transferred_book)\<rparr>) =
         Inr (fs\<lparr>files := (files fs)(base_file \<mapsto> Xlsx transferred_book)\<rparr>)"
    and "execute_same_sheet_transfer m
           (fs\<lparr>files := (files fs)(base_file \<mapsto> Xlsx transferred_book)\<rparr>) =
         Inr (fs\<lparr>files := (files fs)(base_file \<mapsto> Xlsx final_book)\<rparr>)"
proof -
  let ?fs0 = "fs\<lparr>files := (files fs)(base_file \<mapsto> Xlsx dest_book)\<rparr>"
  let ?fs1 = "fs\<lparr>files := (files fs)(base_file \<mapsto> Xlsx transferred_book)\<rparr>"
  show "execute_excel_macro m fs = Inr ?fs0"
    using excel_macro_loaded [OF m(1) fs(1) fs(3)] .
  have f0: "files ?fs0 base_file = Some (Xlsx dest_book)"
    "files ?fs0 new_file = Some (Xlsx source_book)" "writable ?fs0 base_file"
    using fs example_paths by simp_all
  show "execute_different_sheet_transfer suffix_one m ?fs0 = Inr ?fs1"
    using example_transfer [OF m f0] by simp
  show "execute_different_sheet_transfer suffix_one m fs = Inr ?fs1"
    using m fs by (rule example_transfer)
  have f1: "files ?fs1 base_file = Some (Xlsx transferred_book)"
    "files ?fs1 new_file = Some (Xlsx source_book)" "writable ?fs1 base_file"
    using fs example_paths by simp_all
  show "execute_excel_macro m ?fs1 = Inr ?fs1"
    using excel_macro_loaded [OF m(1) f1(1) f1(3)] by simp
  show "execute_same_sheet_transfer m ?fs1 =
      Inr (fs\<lparr>files := (files fs)(base_file \<mapsto> Xlsx final_book)\<rparr>)"
    using example_append [OF m f1] by simp
qed

lemma example_run:
  assumes "files fs base_file = Some (Xlsx dest_book)" "files fs new_file = Some (Xlsx source_book)"
    "writable fs base_file"
  shows "run_steps suffix_one ready (pipeline_steps ready) fs =
     ([step_start ''different_sheet_transfer'', step_complete ''different_sheet_transfer'',
       step_start ''excel_macro'', step_complete ''excel_macro'',
       step_start ''same_sheet_transfer'', step_complete ''same_sheet_transfer''],
      fs\<lparr>files := (files fs)(base_file \<mapsto> Xlsx final_book)\<rparr>, True)"
  unfolding ready_paths
  by (simp add: init_steps_def example_steps [OF ready_paths(1,2) assms])



lemma both_files_loaded:
  "files both_files base_file = Some (Xlsx dest_book)"
  "files both_files new_file = Some (Xlsx source_book)" "writable both_files base_file"
  using example_paths by (simp_all add: both_files_def)

lemma output_locked_loaded:
  "files output_locked base_file = Some (Xlsx dest_book)"
  "files output_locked new_file = Some (Xlsx source_book)" "writable output_locked base_file"
  using example_paths by (simp_all add: output_locked_def base_file_def)






section \<open>The claims\<close>

text \<open>
  Claim C1. Whatever the position of a step in the ordered sequence, if its operation
  raises, the runner emits \<open>step_error\<close> with the step's id and the message and the run
  ends there: the events are those of the steps before it, then \<open>step_start\<close> and
  \<open>step_error\<close> of the failing step, and nothing else; no later step starts, completes or
  fails, the output copy is not reached (no \<open>pipeline_complete\<close>), and no file other than
  the destination differs from what it was before the run.
\<close>

theorem step_failure_terminates_run:
  assumes steps: "pipeline_steps m = pre @ s # post"
    and before: "run_steps adn m pre fs = (evs, fs', True)"
    and fails: "call adn (step_function s) m fs' = Inl e"
  shows "run_pipeline adn m fs =
           (evs @ [step_start (step_id s), step_error (step_id s) (Str e)], fs', None)
         \<and> list_all is_step_event evs
         \<and> (\<forall>p. base_sheet_path m \<noteq> Some p \<longrightarrow> files fs' p = files fs p)"
proof -
  have "run_steps adn m (pre @ s # post) fs =
          (evs @ [step_start (step_id s), step_error (step_id s) (Str e)], fs', False)"
    using before fails
  proof (induction pre arbitrary: fs evs)
    case Nil
    then show ?case by simp
  next
    case (Cons a pre)
    then show ?case
      by (auto split: sum.splits prod.splits)
  qed
  then have "run_pipeline adn m fs =
      (evs @ [step_start (step_id s), step_error (step_id s) (Str e)], fs', None)"
    by (simp add: run_pipeline_def steps)
  with run_steps_events [OF before] run_steps_frame [OF before] show ?thesis
    by simp
qed

theorem step_failure_terminates_run_witness:
  "run_pipeline suffix_one macro_first base_only =
     ([step_start ''excel_macro'', step_complete ''excel_macro'',
       step_start ''different_sheet_transfer'',
       step_error ''different_sheet_transfer'' (Str (FileNotFoundError new_file))],
      base_only\<lparr>files := (files base_only)(base_file \<mapsto> Xlsx dest_book)\<rparr>, None)"
  using step_failure_terminates_run
    [of macro_first "[init_steps ! 1]" "init_steps ! 0" "[init_steps ! 2]" suffix_one base_only
        "[step_start ''excel_macro'', step_complete ''excel_macro'']"
        "base_only\<lparr>files := (files base_only)(base_file \<mapsto> Xlsx dest_book)\<rparr>"
        "FileNotFoundError new_file"]
  by (simp add: macro_first_def ready_def init_steps_def base_only_def base_file_def new_file_def
        execute_excel_macro_def execute_different_sheet_transfer_def load_workbook_def save_def
        write_file_def)

text \<open>
  Claim C2, amended. Let column 1 of the destination sheet be filled in exactly the rows 1
  to \<open>N\<close>, let every row of the destination below row \<open>N\<close> be empty, let the source sheet
  have a header row and \<open>M\<close> data rows, and let each data row have a value in column 1.
  Then the append step succeeds; afterwards column 1 of the destination is filled in
  exactly the rows 1 to \<open>N + M\<close>, the rows \<open>N + 1\<close> to \<open>N + M\<close> hold the source rows 2 to
  \<open>M + 1\<close> in order, column by column, each datetime value as its \<open>dd/mm/yyyy\<close> text and
  every other value as it is, and the rows 1 to \<open>N\<close> are as before.
\<close>

theorem append_to_same_sheet:
  assumes paths: "new_data_sheet_path m = Some sp" "base_sheet_path m = Some dp"
    and loaded: "files fs sp = Some (Xlsx swb)" "files fs dp = Some (Xlsx dwb)"
    and sheets: "active swb = Some ssh" "active dwb = Some dsh"
    and can_save: "writable fs dp"
    and column1: "\<forall>r. value_at (cells dsh) r 1 \<noteq> NoneV \<longleftrightarrow> 1 \<le> r \<and> r \<le> N"
    and rows: "max_row (cells ssh) = Suc M"
    and first_cells: "\<forall>r. 2 \<le> r \<and> r \<le> Suc M \<longrightarrow> value_at (cells ssh) r 1 \<noteq> NoneV"
    and below: "\<forall>r c. N < r \<longrightarrow> value_at (cells dsh) r c = NoneV"
  shows "\<exists>dsh'. execute_same_sheet_transfer m fs =
             Inr (fs\<lparr>files := (files fs)(dp \<mapsto>
               Xlsx (dwb\<lparr>sheets := (sheets dwb)[active_index dwb := dsh']\<rparr>))\<rparr>)
           \<and> title dsh' = title dsh
           \<and> (\<forall>r. value_at (cells dsh') r 1 \<noteq> NoneV \<longleftrightarrow> 1 \<le> r \<and> r \<le> N + M)
           \<and> (\<forall>i c. i < M \<and> 1 \<le> c \<longrightarrow>
                 value_at (cells dsh') (N + 1 + i) c = format_value (value_at (cells ssh) (2 + i) c))
           \<and> (\<forall>r c. r \<le> N \<longrightarrow> value_at (cells dsh') r c = value_at (cells dsh) r c)"
proof -
  define n where "n = find_next_row (cells dsh) 1"
  define written where
    "written = write_rows (touch (cells dsh) (n, 1)) n (iter_rows 2 (cells ssh))"
  define dsh' where "dsh' = dsh\<lparr>cells := written\<rparr>"
  have n: "n = Suc N"
    unfolding n_def using column1 by (rule find_next_row_filled)
  have len: "length (iter_rows 2 (cells ssh)) = M"
    using rows by (auto simp: length_iter_rows max_row_def)
  have result: "execute_same_sheet_transfer m fs =
      Inr (fs\<lparr>files := (files fs)(dp \<mapsto>
        Xlsx (dwb\<lparr>sheets := (sheets dwb)[active_index dwb := dsh']\<rparr>))\<rparr>)"
    unfolding dsh'_def written_def n_def
    using paths loaded sheets can_save by (rule same_sheet_transfer_loaded)
  have new_rows: "value_at written (N + 1 + i) c = format_value (value_at (cells ssh) (2 + i) c)"
    if "i < M" "1 \<le> c" for i c
  proof -
    have "value_at written (n + i) c =
        (if value_at (cells ssh) (2 + i) c \<noteq> NoneV
         then format_value (value_at (cells ssh) (2 + i) c)
         else value_at (cells dsh) (n + i) c)"
      unfolding written_def using rows that by (rule appended_rows)
    moreover have "value_at (cells dsh) (n + i) c = NoneV"
      using below n by simp
    ultimately show ?thesis
      using n by (auto simp: format_value_None)
  qed
  have old_rows: "value_at written r c = value_at (cells dsh) r c" if "r \<le> N \<or> N + M < r" for r c
    unfolding written_def using that n len by (intro rows_outside_append) auto
  have count: "value_at written r 1 \<noteq> NoneV \<longleftrightarrow> 1 \<le> r \<and> r \<le> N + M" for r
  proof (cases "r \<le> N \<or> N + M < r")
    case True
    have "value_at written r 1 = value_at (cells dsh) r 1"
      using True by (rule old_rows)
    moreover have "value_at (cells dsh) r 1 \<noteq> NoneV \<longleftrightarrow> 1 \<le> r \<and> r \<le> N"
      using column1 by blast
    ultimately show ?thesis
      using True by auto
  next
    case False
    define i where "i = r - Suc N"
    from False have i: "i < M" and r: "r = N + 1 + i"
      by (auto simp: i_def)
    from i first_cells have "value_at (cells ssh) (2 + i) 1 \<noteq> NoneV"
      by simp
    moreover have "value_at written (N + 1 + i) 1 = format_value (value_at (cells ssh) (2 + i) 1)"
      using i by (intro new_rows) simp_all
    ultimately have "value_at written r 1 \<noteq> NoneV"
      unfolding r by (simp add: format_value_None)
    with False show ?thesis
      by auto
  qed
  have same_title: "title dsh' = title dsh" and written: "cells dsh' = written"
    by (simp_all add: dsh'_def)
  show ?thesis
  proof (intro exI [of _ dsh'] conjI allI impI)
    show "execute_same_sheet_transfer m fs =
        Inr (fs\<lparr>files := (files fs)(dp \<mapsto>
          Xlsx (dwb\<lparr>sheets := (sheets dwb)[active_index dwb := dsh']\<rparr>))\<rparr>)"
      by (rule result)
    show "title dsh' = title dsh"
      by (rule same_title)
    show "value_at (cells dsh') r 1 \<noteq> NoneV \<longleftrightarrow> 1 \<le> r \<and> r \<le> N + M" for r
      unfolding written by (rule count)
    show "value_at (cells dsh') (N + 1 + i) c = format_value (value_at (cells ssh) (2 + i) c)"
      if "i < M \<and> 1 \<le> c" for i c
      unfolding written using that by (intro new_rows) simp_all
    show "value_at (cells dsh') r c = value_at (cells dsh) r c" if "r \<le> N" for r c
      unfolding written using that by (intro old_rows) simp
  qed
qed

theorem append_to_same_sheet_witness:
  "sheet_cell (execute_same_sheet_transfer ready both_files) base_file 0 2 1 = Some (StrV ''a'')
   \<and> sheet_cell (execute_same_sheet_transfer ready both_files) base_file 0 2 2 =
       Some (StrV ''05/03/2024'')
   \<and> sheet_cell (execute_same_sheet_transfer ready both_files) base_file 0 1 1 =
       Some (StrV ''name'')"
proof -
  let ?ssh = "sheets source_book ! 0" and ?dsh = "sheets dest_book ! 0"
  have sheets: "active source_book = Some ?ssh" "active dest_book = Some ?dsh"
    by code_simp+
  have dcells: "cells ?dsh = [((1, 1), StrV ''name''), ((1, 2), StrV ''when'')]"
    by (simp add: dest_book_def)
  have column1: "\<forall>r. value_at (cells ?dsh) r 1 \<noteq> NoneV \<longleftrightarrow> 1 \<le> r \<and> r \<le> 1"
    unfolding dcells by (auto simp: value_at_def)
  have rows: "max_row (cells ?ssh) = Suc 1"
    by code_simp
  have row2: "value_at (cells ?ssh) 2 1 \<noteq> NoneV"
    by code_simp
  have first_cells: "\<forall>r. 2 \<le> r \<and> r \<le> Suc 1 \<longrightarrow> value_at (cells ?ssh) r 1 \<noteq> NoneV"
  proof (intro allI impI)
    fix r :: nat
    assume "2 \<le> r \<and> r \<le> Suc 1"
    then have "r = 2" by simp
    with row2 show "value_at (cells ?ssh) r 1 \<noteq> NoneV" by simp
  qed
  have below: "\<forall>r c. 1 < r \<longrightarrow> value_at (cells ?dsh) r c = NoneV"
    unfolding dcells by (auto simp: value_at_def)
  have src: "format_value (value_at (cells ?ssh) 2 1) = StrV ''a''"
    "format_value (value_at (cells ?ssh) 2 2) = StrV ''05/03/2024''"
    by code_simp+
  have old: "value_at (cells ?dsh) 1 1 = StrV ''name''"
    by code_simp
  have shape: "length (sheets dest_book) = 1" "active_index dest_book = 0"
    by (simp_all add: dest_book_def)
  from append_to_same_sheet [OF ready_paths(2) ready_paths(1) both_files_loaded(2)
      both_files_loaded(1) sheets both_files_loaded(3) column1 rows first_cells below]
  obtain dsh' where
    res: "execute_same_sheet_transfer ready both_files =
            Inr (both_files\<lparr>files := (files both_files)(base_file \<mapsto>
              Xlsx (dest_book\<lparr>sheets := (sheets dest_book)[active_index dest_book := dsh']\<rparr>))\<rparr>)"
    and new: "\<forall>i c. i < 1 \<and> 1 \<le> c \<longrightarrow>
        value_at (cells dsh') (1 + 1 + i) c = format_value (value_at (cells ?ssh) (2 + i) c)"
    and kept: "\<forall>r c. r \<le> 1 \<longrightarrow> value_at (cells dsh') r c = value_at (cells ?dsh) r c"
    by blast
  from new [rule_format, of 0 1] new [rule_format, of 0 2] src
  have "value_at (cells dsh') 2 1 = StrV ''a''" "value_at (cells dsh') 2 2 = StrV ''05/03/2024''"
    by (simp_all add: numeral_2_eq_2)
  moreover from kept [rule_format, of 1 1] old have "value_at (cells dsh') 1 1 = StrV ''name''"
    by simp
  ultimately show ?thesis
    unfolding res by (simp add: sheet_cell_def shape numeral_2_eq_2)
qed

text \<open>
  The claim as stated fails without the two added conditions. Here column 1 of the
  destination is filled in row 1 only (\<open>N = 1\<close>) and the source has a header and one data
  row (\<open>M = 1\<close>), whose first two cells are empty. After the step, row 2 of column 1 is
  still empty, so column 1 has one filled row, not two; and the cell beside it keeps the
  value the destination had there, which the source row does not have.
\<close>

theorem append_to_same_sheet_counterexample:
  "sheet_cell (Inr gap_files) base_file 0 1 1 = Some (StrV ''name'')
   \<and> sheet_cell (Inr gap_files) base_file 0 2 1 = Some NoneV
   \<and> max_row (cells (sheets sparse_book ! 0)) = 2
   \<and> sheet_cell (Inr gap_files) new_file 0 2 2 = Some NoneV
   \<and> sheet_cell (execute_same_sheet_transfer ready gap_files) base_file 0 2 1 = Some NoneV
   \<and> sheet_cell (execute_same_sheet_transfer ready gap_files) base_file 0 2 2 = Some (StrV ''x'')
   \<and> sheet_cell (execute_same_sheet_transfer ready gap_files) base_file 0 2 3 = Some (IntV 5)"
  by code_simp

text \<open>
  Claim C3, amended. The transfer to a new sheet appends one sheet to the destination
  workbook, after the sheets it has, which stay as they are; the new sheet holds every row
  of the source's active sheet, the header included, in order, each datetime value as its
  \<open>dd/mm/yyyy\<close> text. Its title is \<open>Transferred Data\<close> when no sheet of the destination
  has that title, letter case aside. When one has, the step does not fail: the new sheet
  gets the numbered title the library makes of it.
\<close>

theorem transfer_to_new_sheet:
  assumes paths: "new_data_sheet_path m = Some sp" "base_sheet_path m = Some dp"
    and loaded: "files fs sp = Some (Xlsx swb)" "files fs dp = Some (Xlsx dwb)"
    and sheet: "active swb = Some ssh"
    and can_save: "writable fs dp"
  shows "\<exists>new. execute_different_sheet_transfer adn m fs =
             Inr (fs\<lparr>files := (files fs)(dp \<mapsto> Xlsx (dwb\<lparr>sheets := sheets dwb @ [new]\<rparr>))\<rparr>)
           \<and> (\<forall>r c. 1 \<le> r \<and> 1 \<le> c \<longrightarrow>
                 value_at (cells new) r c = format_value (value_at (cells ssh) r c))
           \<and> (\<not> list_ex (\<lambda>n. lower n = lower ''Transferred Data'') (sheetnames dwb) \<longrightarrow>
                 title new = ''Transferred Data'')
           \<and> (list_ex (\<lambda>n. lower n = lower ''Transferred Data'') (sheetnames dwb) \<longrightarrow>
                 title new = adn (sheetnames dwb) ''Transferred Data'')"
proof -
  define new where "new =
    \<lparr>title = (if list_ex (\<lambda>n. lower n = lower new_sheet_name) (sheetnames dwb)
              then adn (sheetnames dwb) new_sheet_name else new_sheet_name),
     cells = append_rows [] 0 (map (map format_value) (iter_rows 1 (cells ssh)))\<rparr>"
  have "execute_different_sheet_transfer adn m fs =
      Inr (fs\<lparr>files := (files fs)(dp \<mapsto> Xlsx (dwb\<lparr>sheets := sheets dwb @ [new]\<rparr>))\<rparr>)"
    unfolding new_def using paths loaded sheet can_save by (rule different_sheet_transfer_loaded)
  moreover have "value_at (cells new) r c = format_value (value_at (cells ssh) r c)"
    if "1 \<le> r" "1 \<le> c" for r c
    using transferred_rows [OF that, of "cells ssh"] by (simp add: new_def)
  moreover have "title new = (if list_ex (\<lambda>n. lower n = lower ''Transferred Data'') (sheetnames dwb)
              then adn (sheetnames dwb) ''Transferred Data'' else ''Transferred Data'')"
    by (simp add: new_def new_sheet_name_def)
  ultimately show ?thesis
    by (intro exI [of _ new]) simp
qed

theorem transfer_to_new_sheet_witness:
  "sheet_titles (execute_different_sheet_transfer suffix_one ready both_files) base_file =
     Some [''Sheet1'', ''Transferred Data'']
   \<and> sheet_cell (execute_different_sheet_transfer suffix_one ready both_files) base_file 1 2 2 =
       Some (StrV ''05/03/2024'')
   \<and> sheet_titles (execute_different_sheet_transfer suffix_one ready transferred_files) base_file =
       Some [''Sheet1'', ''Transferred Data'', ''Transferred Data1'']"
proof -
  let ?ssh = "sheets source_book ! 0"
  have sheet: "active source_book = Some ?ssh"
    by code_simp
  have fresh: "\<not> list_ex (\<lambda>n. lower n = lower ''Transferred Data'') (sheetnames dest_book)"
    and taken: "list_ex (\<lambda>n. lower n = lower ''Transferred Data'') (sheetnames transferred_book)"
    by code_simp+
  have names: "sheetnames dest_book = [''Sheet1'']"
    "sheetnames transferred_book = [''Sheet1'', ''Transferred Data'']"
    "suffix_one (sheetnames transferred_book) ''Transferred Data'' = ''Transferred Data1''"
    by code_simp+
  have src: "format_value (value_at (cells ?ssh) 2 2) = StrV ''05/03/2024''"
    by code_simp
  have loaded: "files transferred_files base_file = Some (Xlsx transferred_book)"
    "files transferred_files new_file = Some (Xlsx source_book)" "writable transferred_files base_file"
    using example_paths by (simp_all add: transferred_files_def)
  from transfer_to_new_sheet [OF ready_paths(2) ready_paths(1) both_files_loaded(2)
      both_files_loaded(1) sheet both_files_loaded(3), of suffix_one] fresh
  obtain new where
    res: "execute_different_sheet_transfer suffix_one ready both_files =
            Inr (both_files\<lparr>files := (files both_files)(base_file \<mapsto>
              Xlsx (dest_book\<lparr>sheets := sheets dest_book @ [new]\<rparr>))\<rparr>)"
    and rows: "\<forall>r c. 1 \<le> r \<and> 1 \<le> c \<longrightarrow>
        value_at (cells new) r c = format_value (value_at (cells ?ssh) r c)"
    and title: "title new = ''Transferred Data''"
    by blast
  from transfer_to_new_sheet [OF ready_paths(2) ready_paths(1) loaded(2) loaded(1) sheet loaded(3),
      of suffix_one] taken
  obtain new2 where
    res2: "execute_different_sheet_transfer suffix_one ready transferred_files =
            Inr (transferred_files\<lparr>files := (files transferred_files)(base_file \<mapsto>
              Xlsx (transferred_book\<lparr>sheets := sheets transferred_book @ [new2]\<rparr>))\<rparr>)"
    and title2: "title new2 = suffix_one (sheetnames transferred_book) ''Transferred Data''"
    by blast
  from rows [rule_format, of 2 2] src have cell: "value_at (cells new) 2 2 = StrV ''05/03/2024''"
    by simp
  have one: "length (sheets dest_book) = 1"
    by (simp add: dest_book_def)
  have "sheet_titles (execute_different_sheet_transfer suffix_one ready both_files) base_file =
      Some (sheetnames dest_book @ [title new])"
    unfolding res by (simp add: sheet_titles_def sheetnames_def)
  moreover have "sheet_cell (execute_different_sheet_transfer suffix_one ready both_files)
      base_file 1 2 2 = Some (value_at (cells new) 2 2)"
    unfolding res by (simp add: sheet_cell_def one nth_append)
  moreover have "sheet_titles (execute_different_sheet_transfer suffix_one ready transferred_files)
      base_file = Some (sheetnames transferred_book @ [title new2])"
    unfolding res2 by (simp add: sheet_titles_def sheetnames_def)
  ultimately show ?thesis
    unfolding title title2 cell names by (simp add: suffix_one_def)
qed

text \<open>
  The claim as stated fails in its second half: run on a destination that already has a
  sheet titled \<open>Transferred Data\<close>, the step raises nothing.
\<close>

theorem transfer_to_new_sheet_counterexample:
  "sheet_titles (Inr transferred_files) base_file = Some [''Sheet1'', ''Transferred Data'']
   \<and> \<not> isl (execute_different_sheet_transfer suffix_one ready transferred_files)"
  by code_simp



text \<open>
  Claim C5, at a start request whose order holds the three known ids and one unknown id,
  with both files uploaded. The configuration update rejects this order and leaves the
  sequence as it is; the start request validates nothing: every step's id has a position
  in the order, so the sort succeeds, the sequence is reordered, no error is raised and
  the run is started.
\<close>

theorem start_with_unknown_id_reorders:
  "execute_pipeline (Some bogus_order) ready =
     (\<lparr>emitted = [], raised = None, thread_started = True\<rparr>,
      ready\<lparr>pipeline_steps := rev init_steps\<rparr>)
   \<and> \<not> list_all (\<lambda>i. map_of step_functions i \<noteq> None) bogus_order
   \<and> update_pipeline_config bogus_order ready = (False, ready)"
  by code_simp

text \<open>
  Claim C6. If the source path or the destination path is absent when a run is requested,
  with or without a step order, exactly one \<open>step_error\<close> event is emitted, for the first
  step of the current order; no thread is started, so no \<open>step_start\<close> or \<open>step_complete\<close>
  follows, and the manager and the files are as before.
\<close>

theorem missing_input_rejected:
  assumes absent: "base_sheet_path m = None \<or> new_data_sheet_path m = None"
    and first: "pipeline_steps m = s # rest"
  shows "execute_pipeline data m =
           (\<lparr>emitted = [step_error (step_id s)
                (Text ''Please upload both Excel files before running the pipeline'')],
             raised = None, thread_started = False\<rparr>, m)
         \<and> handle_pipeline_start adn data (m, fs) =
           ([step_error (step_id s)
               (Text ''Please upload both Excel files before running the pipeline'')], m, fs)"
  using absent first
  by (auto simp: execute_pipeline_def handle_pipeline_start_def falsy_def)

theorem missing_input_rejected_witness:
  "handle_pipeline_start suffix_one (Some [''excel_macro'']) (init, both_files) =
     ([step_error ''different_sheet_transfer''
         (Text ''Please upload both Excel files before running the pipeline'')], init, both_files)"
  using missing_input_rejected
    [of init "init_steps ! 0" "[init_steps ! 1, init_steps ! 2]" "Some [''excel_macro'']"
        suffix_one both_files]
  by (simp add: init_def init_steps_def)

text \<open>
  Claim C7. When every step of a run has completed, the runner checks that the
  destination file exists and copies it to the output path. If the copy succeeds, the
  last event is \<open>pipeline_complete\<close> with the base name of the output file, and the output
  path holds what the destination holds; if the destination file is missing, or the copy
  fails, the last event is \<open>pipeline_error\<close> with a message, although every step reported
  success.
\<close>

theorem all_steps_succeed_then_copy:
  assumes steps: "run_steps adn m (pipeline_steps m) fs = (evs, fs', True)"
    and base: "base_sheet_path m = Some b"
  shows "(path_exists fs' b \<and> output_file_path m = Some out \<and> out \<noteq> b \<and> writable fs' out \<longrightarrow>
            run_pipeline adn m fs =
              (evs @ [pipeline_complete (basename out)],
               fs'\<lparr>files := (files fs')(out := files fs' b)\<rparr>, None))
       \<and> (\<not> path_exists fs' b \<longrightarrow>
            run_pipeline adn m fs =
              (evs @ [pipeline_error (Text ''Failed to generate output file'')], fs', None))
       \<and> (\<forall>e. path_exists fs' b \<and> copy2 fs' (Some b) (output_file_path m) = Inl e \<longrightarrow>
            run_pipeline adn m fs =
              (evs @ [pipeline_error (TextStr ''Failed to generate output file: '' e)], fs', None))"
proof -
  have rp: "run_pipeline adn m fs =
      (case copy_final_result m fs' of (evs', fs'', exc) \<Rightarrow> (evs @ evs', fs'', exc))"
    using steps by (simp add: run_pipeline_def)
  have copied: "copy_final_result m fs' =
      ([pipeline_complete (basename out)], fs'\<lparr>files := (files fs')(out := files fs' b)\<rparr>, None)"
    if "path_exists fs' b" "output_file_path m = Some out" "out \<noteq> b" "writable fs' out"
  proof -
    from that(1) obtain c where c: "files fs' b = Some c"
      by (auto simp: path_exists_def)
    have "copy2 fs' (Some b) (Some out) = Inr (fs'\<lparr>files := (files fs')(out \<mapsto> c)\<rparr>)"
      using c that(3,4) by (simp add: copy2_def write_file_def)
    then show ?thesis
      using that(1,2) c base by (simp add: copy_final_result_def)
  qed
  have missing: "copy_final_result m fs' =
      ([pipeline_error (Text ''Failed to generate output file'')], fs', None)"
    if "\<not> path_exists fs' b"
    using that base by (simp add: copy_final_result_def)
  have failed: "copy_final_result m fs' =
      ([pipeline_error (TextStr ''Failed to generate output file: '' e)], fs', None)"
    if "path_exists fs' b" "copy2 fs' (Some b) (output_file_path m) = Inl e" for e
    using that base by (simp add: copy_final_result_def)
  show ?thesis
    unfolding rp using copied missing failed by simp
qed

theorem all_steps_succeed_then_copy_witness:
  "fst (run_pipeline suffix_one ready both_files) =
     [step_start ''different_sheet_transfer'', step_complete ''different_sheet_transfer'',
      step_start ''excel_macro'', step_complete ''excel_macro'',
      step_start ''same_sheet_transfer'', step_complete ''same_sheet_transfer'',
      pipeline_complete ''processed_base.xlsx'']
   \<and> fst (run_pipeline suffix_one ready output_locked) =
     [step_start ''different_sheet_transfer'', step_complete ''different_sheet_transfer'',
      step_start ''excel_macro'', step_complete ''excel_macro'',
      step_start ''same_sheet_transfer'', step_complete ''same_sheet_transfer'',
      pipeline_error (TextStr ''Failed to generate output file: ''
        (PermissionError ''output/processed_base.xlsx''))]"
proof -
  let ?out = "''output/processed_base.xlsx''"
  let ?evs =
    "[step_start ''different_sheet_transfer'', step_complete ''different_sheet_transfer'',
      step_start ''excel_macro'', step_complete ''excel_macro'',
      step_start ''same_sheet_transfer'', step_complete ''same_sheet_transfer'']"
  let ?a = "both_files\<lparr>files := (files both_files)(base_file \<mapsto> Xlsx final_book)\<rparr>"
  let ?b = "output_locked\<lparr>files := (files output_locked)(base_file \<mapsto> Xlsx final_book)\<rparr>"
  have name: "basename ?out = ''processed_base.xlsx''"
    by code_simp
  have a: "run_steps suffix_one ready (pipeline_steps ready) both_files = (?evs, ?a, True)"
    by (rule example_run [OF both_files_loaded])
  have a_ok: "path_exists ?a base_file" "?out \<noteq> base_file" "writable ?a ?out"
    by (simp_all add: path_exists_def both_files_def base_file_def)
  have b: "run_steps suffix_one ready (pipeline_steps ready) output_locked = (?evs, ?b, True)"
    by (rule example_run [OF output_locked_loaded])
  have b_exists: "path_exists ?b base_file"
    by (simp add: path_exists_def)
  have b_fails: "copy2 ?b (Some base_file) (output_file_path ready) = Inl (PermissionError ?out)"
    by (simp add: copy2_def write_file_def ready_paths output_locked_def base_file_def)
  from all_steps_succeed_then_copy [OF a ready_paths(1), of ?out] a_ok ready_paths(3) name
  have "fst (run_pipeline suffix_one ready both_files) =
      [step_start ''different_sheet_transfer'', step_complete ''different_sheet_transfer'',
       step_start ''excel_macro'', step_complete ''excel_macro'',
       step_start ''same_sheet_transfer'', step_complete ''same_sheet_transfer'',
       pipeline_complete ''processed_base.xlsx'']"
    by simp
  moreover from all_steps_succeed_then_copy [OF b ready_paths(1), of ?out] b_exists b_fails
  have "fst (run_pipeline suffix_one ready output_locked) =
      [step_start ''different_sheet_transfer'', step_complete ''different_sheet_transfer'',
       step_start ''excel_macro'', step_complete ''excel_macro'',
       step_start ''same_sheet_transfer'', step_complete ''same_sheet_transfer'',
       pipeline_error (TextStr ''Failed to generate output file: '' (PermissionError ?out))]"
    by simp
  ultimately show ?thesis
    by simp
qed




text \<open>
  Claim C9. When the backup copy of \<open>update_file_paths\<close> fails, the failure leaves the
  call, and the stored source, destination and output paths are what they were before.
\<close>

theorem backup_failure_keeps_paths:
  assumes "path_exists fs base_path"
    and "copy2 fs (Some base_path) (Some (backup_path now base_path)) = Inl e"
  shows "update_file_paths now base_path new_data_path (m, fs) = (Some e, m, fs)"
  using assms by (simp add: update_file_paths_def)

theorem backup_failure_keeps_paths_witness:
  "update_file_paths noon base_file new_file (init, read_only) =
     (Some (PermissionError ''backups/backup_20240305_120007_base.xlsx''), init, read_only)"
  using backup_failure_keeps_paths
    [of read_only base_file noon "PermissionError ''backups/backup_20240305_120007_base.xlsx''"
        new_file init]
  by (simp add: backup_name_noon read_only_def path_exists_def copy2_def write_file_def
        base_file_def)

text \<open>
  Claim C10, amended. When the source path differs from the destination path, no step
  writes the file at the source path: a step that succeeds has written one file, a
  workbook at the destination path, and after any number of steps of a run the source
  path holds what it held before.
\<close>

theorem source_file_unchanged:
  assumes source: "new_data_sheet_path m = Some sp"
    and distinct_paths: "base_sheet_path m \<noteq> Some sp"
  shows "(\<forall>f fs fs'. call adn f m fs = Inr fs' \<longrightarrow>
            (\<exists>dp wb. base_sheet_path m = Some dp \<and> fs' = fs\<lparr>files := (files fs)(dp \<mapsto> Xlsx wb)\<rparr>)
            \<and> files fs' sp = files fs sp)
       \<and> (\<forall>ss fs evs fs' fin. run_steps adn m ss fs = (evs, fs', fin) \<longrightarrow>
            files fs' sp = files fs sp)"
proof (intro conjI allI impI)
  fix f fs fs'
  assume c: "call adn f m fs = Inr fs'"
  from call_Inr [OF c]
  show "\<exists>dp wb. base_sheet_path m = Some dp \<and> fs' = fs\<lparr>files := (files fs)(dp \<mapsto> Xlsx wb)\<rparr>" .
  with distinct_paths show "files fs' sp = files fs sp"
    by auto
next
  fix ss fs evs fs' fin
  assume "run_steps adn m ss fs = (evs, fs', fin)"
  from run_steps_frame [OF this] distinct_paths show "files fs' sp = files fs sp"
    by simp
qed

theorem source_file_unchanged_witness:
  "\<exists>fs'. call suffix_one DifferentSheetTransfer ready both_files = Inr fs'
         \<and> files fs' new_file = files both_files new_file"
proof -
  have "base_sheet_path ready \<noteq> Some new_file"
    using example_paths by (simp add: ready_paths)
  from source_file_unchanged [OF ready_paths(2) this, of suffix_one]
  have "\<forall>f fs fs'. call suffix_one f ready fs = Inr fs' \<longrightarrow> files fs' new_file = files fs new_file"
    by blast
  moreover have "call suffix_one DifferentSheetTransfer ready both_files =
      Inr (both_files\<lparr>files := (files both_files)(base_file \<mapsto> Xlsx transferred_book)\<rparr>)"
    using example_transfer [OF ready_paths(1,2) both_files_loaded] by simp
  ultimately show ?thesis
    by blast
qed

text \<open>
  The claim as stated fails when both paths name the same file, as they do after an upload
  of two files with one name: the step saves to the destination path, which is the source
  path, and the file there gains a sheet.
\<close>

theorem source_file_unchanged_counterexample:
  "new_data_sheet_path same_paths = Some base_file
   \<and> base_sheet_path same_paths = Some base_file
   \<and> sheet_titles (Inr base_only) base_file = Some [''Sheet1'']
   \<and> sheet_titles (call suffix_one DifferentSheetTransfer same_paths base_only) base_file =
       Some [''Sheet1'', ''Transferred Data'']"
  by code_simp

end
